theory Spec2Isabelle
  imports Main
begin

section \<open>Domain types\<close>

text \<open>
  The board store of the backend (the unnamed source file that defines \<open>fetchBoard\<close>,
  \<open>getBoardHistory\<close>, \<open>verifyEventArrayContinuity\<close> and \<open>storeEventHistoryBundle\<close>)
  and the client's outbound queue (the module with \<open>sendIfPossible\<close>, \<open>ack\<close>,
  \<open>enqueue\<close> and \<open>onConnect\<close>).

  \<open>common/src/domain\<close> is not among the sources, so the shapes below hold the fields
  the code reads and writes and leave the rest as type parameters. Two fields are
  renamed because the source uses one name twice: the board's \<open>id\<close> and \<open>serial\<close>
  are \<open>id_b\<close> and \<open>serial_b\<close>; a history entry keeps \<open>serial\<close>. A serial is a
  JavaScript number; the code uses \<open>-1\<close> as a sentinel, so it is an \<open>int\<close> here.
  An optional field (\<open>serial?\<close>, \<open>firstSerial?\<close>) is an \<open>option\<close>.
\<close>

type_synonym Id = string
type_synonym Serial = int

record 'p BoardHistoryEntry =
  action :: string
  serial :: "Serial option"
  firstSerial :: "Serial option"
  payload :: 'p

record ('item, 'conn, 'policy) Board =
  id_b :: Id
  name :: string
  serial_b :: Serial
  items :: "Id \<rightharpoonup> 'item"
  connections :: "'conn list"
  accessPolicy :: "'policy option"

text \<open>Every \<open>throw\<close> of the modelled code, and the errors of the callees it relies on.\<close>

datatype error =
  ReducerError string
  | AssertionFailed
  | FoldedEventsNotExpected
  | UnexpectedDBRowValue
  | TypeError
  | SerialInFuture Serial
  | NonContinuousTimeline Serial Serial Serial

record ReducerOptions =
  inplace :: bool
  strictOnSerials :: bool

text \<open>
  \<open>boardReducer\<close> (\<open>common/src/board-reducer\<close>) is not among the sources: the loader
  takes it as a parameter. It returns a pair whose first component the loader uses;
  a \<open>throw\<close> is \<open>Inl\<close>. The \<open>inplace\<close> option is passed on as the code passes it; the
  reducer is a function of its arguments, as the specification requires of it (the
  result must not depend on \<open>inplace\<close>), so a reducer that updates the board object in
  place is modelled by the board it returns, and the snapshot is the value read from the
  database throughout.
\<close>

type_synonym ('i, 'c, 'a, 'p) Reducer =
  "('i, 'c, 'a) Board \<Rightarrow> 'p BoardHistoryEntry \<Rightarrow> ReducerOptions \<Rightarrow> error + ('i, 'c, 'a) Board"

text \<open>
  Modelled from the spec: \<open>assertNotNull\<close> (\<open>common/src/assertNotNull\<close>) is missing from
  the sources; the specification does not describe it either, so the model follows its
  name and its use in \<open>storeEventHistoryBundle\<close>: the value when there is one, an
  assertion failure when it is \<open>null\<close> or \<open>undefined\<close>.
\<close>

definition assertNotNull :: "'a option \<Rightarrow> error + 'a" where
  "assertNotNull x = (case x of None \<Rightarrow> Inl AssertionFailed | Some v \<Rightarrow> Inr v)"

text \<open>
  Modelled from the spec: the serial discipline of \<open>boardReducer\<close> (section 4.1), which
  is missing from the sources. With \<open>strictOnSerials\<close> an event whose serial is not
  the board's serial plus one is rejected; without it serials are accepted in the given
  order. The effect of the event's payload on the items is not modelled: this reducer
  only advances the serial. It is used only as a concrete reducer in examples; every
  general theorem below holds for an arbitrary reducer.
\<close>

definition serialReducer :: "('i, 'c, 'a, 'p) Reducer" where
  "serialReducer b e opts =
     (case serial e of
        None \<Rightarrow> Inr b
      | Some s \<Rightarrow>
          if strictOnSerials opts \<and> s \<noteq> serial_b b + 1
          then Inl (ReducerError ''Serial skip'')
          else Inr (b\<lparr>serial_b := s\<rparr>))"

section \<open>The database\<close>

text \<open>
  A row of \<open>board_event\<close>. The \<open>events\<close> column holds the JSON \<open>{events: [...]}\<close>;
  \<open>row.events?.events\<close> is \<open>undefined\<close> when it is absent, which is \<open>None\<close>.
\<close>

record 'p BoardEventRow =
  board_id :: Id
  first_serial :: Serial
  last_serial :: Serial
  events :: "'p BoardHistoryEntry list option"
  saved_at :: nat

record ('i, 'c, 'a) BoardRow =
  name_col :: string
  content :: "('i, 'c, 'a) Board"

text \<open>
  The tables the modelled functions touch. \<open>policy_columns\<close> stands for what
  \<open>selectBoardQuery\<close> computes from \<open>public_read\<close>, \<open>public_write\<close> and the
  \<open>board_access\<close> table: the access policy it writes over the one in \<open>content\<close>.
\<close>

record ('i, 'c, 'a, 'p) DB =
  board_table :: "Id \<rightharpoonup> ('i, 'c, 'a) BoardRow"
  policy_columns :: "Id \<Rightarrow> 'a option"
  board_event :: "'p BoardEventRow list"
  board_api_token :: "(Id \<times> string) list"

definition selectBoard :: "('i, 'c, 'a, 'p) DB \<Rightarrow> Id \<Rightarrow> ('i, 'c, 'a) Board option" where
  "selectBoard db bid =
     (case board_table db bid of
        None \<Rightarrow> None
      | Some r \<Rightarrow> Some ((content r)\<lparr>accessPolicy := policy_columns db bid\<rparr>))"

text \<open>
  \<open>SELECT events FROM board_event WHERE board_id=$1 ORDER BY last_serial\<close> and the
  same with \<open>AND last_serial >= $2\<close>. Rows with equal \<open>last_serial\<close> keep their
  table order (SQL leaves their order open).
\<close>

definition selectAllEvents ::
  "('i, 'c, 'a, 'p) DB \<Rightarrow> Id \<Rightarrow> 'p BoardHistoryEntry list option list" where
  "selectAllEvents db bid =
     map events (sort_key last_serial (filter (\<lambda>r. board_id r = bid) (board_event db)))"

definition selectEventsFrom ::
  "('i, 'c, 'a, 'p) DB \<Rightarrow> Id \<Rightarrow> Serial \<Rightarrow> 'p BoardHistoryEntry list option list" where
  "selectEventsFrom db bid afterSerial =
     map events (sort_key last_serial
       (filter (\<lambda>r. board_id r = bid \<and> last_serial r \<ge> afterSerial) (board_event db)))"

text \<open>\<open>UPDATE board set name=$2, content=$3 WHERE id=$1\<close>: no row, no change.\<close>

definition saveBoardSnapshot ::
  "('i, 'c, 'a) Board \<Rightarrow> ('i, 'c, 'a, 'p) DB \<Rightarrow> ('i, 'c, 'a, 'p) DB" where
  "saveBoardSnapshot b db =
     (case board_table db (id_b b) of
        None \<Rightarrow> db
      | Some r \<Rightarrow> db\<lparr>board_table := (board_table db)(id_b b \<mapsto> \<lparr>name_col = name b, content = b\<rparr>)\<rparr>)"

text \<open>\<open>migrateBoard\<close> (\<open>common/src/migration\<close>) is a parameter.\<close>

definition mkSnapshot ::
  "(('i, 'c, 'a) Board \<Rightarrow> ('i, 'c, 'a) Board) \<Rightarrow> ('i, 'c, 'a) Board \<Rightarrow> Serial \<Rightarrow> ('i, 'c, 'a) Board" where
  "mkSnapshot migrateBoard b s = migrateBoard (b\<lparr>serial_b := s\<rparr>)"

section \<open>Storing a bundle\<close>

text \<open>
  \<open>storeEventHistoryBundle\<close>: nothing for an empty list; otherwise the guard against
  folded events, the two \<open>assertNotNull\<close>s, and the \<open>INSERT\<close>.
\<close>

definition storeEventHistoryBundle ::
  "Id \<Rightarrow> 'p BoardHistoryEntry list \<Rightarrow> nat \<Rightarrow> ('i, 'c, 'a, 'p) DB \<Rightarrow> error + ('i, 'c, 'a, 'p) DB" where
  "storeEventHistoryBundle boardId evs savedAt db =
     (if length evs > 0 then
        (if firstSerial (hd evs) \<noteq> None then Inl FoldedEventsNotExpected
         else
           (case assertNotNull (serial (hd evs)) of
              Inl err \<Rightarrow> Inl err
            | Inr fs \<Rightarrow>
                (case assertNotNull (serial (last evs)) of
                   Inl err \<Rightarrow> Inl err
                 | Inr ls \<Rightarrow>
                     Inr (db\<lparr>board_event := board_event db @
                            [\<lparr>board_id = boardId, first_serial = fs, last_serial = ls,
                              events = Some evs, saved_at = savedAt\<rparr>]\<rparr>))))
      else Inr db)"

text \<open>
  The specification's notion of the store's tail for a board: the highest
  \<open>last_serial\<close> among its bundles, 0 when it has none. The code never computes it;
  it is defined here to state what \<open>storeEventHistoryBundle\<close> does not check.
\<close>

definition highestPersistedSerial :: "('i, 'c, 'a, 'p) DB \<Rightarrow> Id \<Rightarrow> Serial" where
  "highestPersistedSerial db bid =
     fold max (map last_serial (filter (\<lambda>r. board_id r = bid) (board_event db))) 0"

section \<open>Continuity\<close>

text \<open>
  \<open>verifyTwoPoints\<close> compares \<open>b !== a + 1\<close>. Its callers pass \<open>event.serial!\<close>; the
  non-null assertion is erased at run time, so a missing serial reaches the comparison
  as \<open>undefined\<close>, which differs from every number.
\<close>

definition verifyTwoPoints :: "Id \<Rightarrow> Serial \<Rightarrow> Serial option \<Rightarrow> bool" where
  "verifyTwoPoints boardId a b = (if b \<noteq> Some (a + 1) then False else True)"

fun verifyEventArrayContinuity :: "Id \<Rightarrow> Serial \<Rightarrow> 'p BoardHistoryEntry list \<Rightarrow> bool" where
  "verifyEventArrayContinuity boardId init [] = True"
| "verifyEventArrayContinuity boardId init (event # evs) =
     (if \<not> verifyTwoPoints boardId init (serial event) then False
      else verifyEventArrayContinuity boardId (the (serial event)) evs)"

section \<open>Streaming the history\<close>

text \<open>
  A callback of the stream mutates variables of its closure and may throw. It is a
  function from the closure's state and the chunk to the new state, or to the error
  together with the state at the moment of the throw (the caller's \<open>catch\<close> handler
  goes on from that state).

  \<open>streamingBoardEventsQuery\<close> hands each row's events, migrated, to the callback, in
  order; a row without events or a throwing callback destroys the stream and rejects.
  \<open>migrateEvent\<close> (\<open>common/src/migration\<close>) is a parameter. Errors of the database
  connection itself are not modelled.
\<close>

type_synonym ('s, 'p) Callback = "'s \<Rightarrow> 'p BoardHistoryEntry list \<Rightarrow> (error \<times> 's) + 's"

fun streamingBoardEventsQuery ::
  "('p BoardHistoryEntry \<Rightarrow> 'p BoardHistoryEntry) \<Rightarrow> 'p BoardHistoryEntry list option list \<Rightarrow>
   ('s, 'p) Callback \<Rightarrow> 's \<Rightarrow> (error \<times> 's) + 's" where
  "streamingBoardEventsQuery migrateEvent [] cb s = Inr s"
| "streamingBoardEventsQuery migrateEvent (row # rows) cb s =
     (case row of
        None \<Rightarrow> Inl (UnexpectedDBRowValue, s)
      | Some chunk \<Rightarrow>
          (case cb s (map migrateEvent chunk) of
             Inl failed \<Rightarrow> Inl failed
           | Inr s' \<Rightarrow> streamingBoardEventsQuery migrateEvent rows cb s'))"

definition getFullBoardHistory ::
  "('p BoardHistoryEntry \<Rightarrow> 'p BoardHistoryEntry) \<Rightarrow> ('i, 'c, 'a, 'p) DB \<Rightarrow> Id \<Rightarrow>
   ('s, 'p) Callback \<Rightarrow> 's \<Rightarrow> (error \<times> 's) + 's" where
  "getFullBoardHistory migrateEvent db bid cb s =
     streamingBoardEventsQuery migrateEvent (selectAllEvents db bid) cb s"

text \<open>The three local variables of \<open>getBoardHistory\<close>, each starting at \<open>-1\<close>.\<close>

record HistoryCursor =
  firstSerial_h :: Serial
  lastSerial_h :: Serial
  firstValidSerial :: Serial

definition initCursor :: HistoryCursor where
  "initCursor = \<lparr>firstSerial_h = -1, lastSerial_h = -1, firstValidSerial = -1\<rparr>"

text \<open>\<open>r.serial! > afterSerial\<close>: \<open>undefined > n\<close> is false.\<close>

definition validAfter :: "Serial \<Rightarrow> 'p BoardHistoryEntry \<Rightarrow> bool" where
  "validAfter afterSerial r = (case serial r of None \<Rightarrow> False | Some x \<Rightarrow> x > afterSerial)"

text \<open>
  The callback \<open>getBoardHistory\<close> gives the stream. On an empty chunk
  \<open>chunk[chunk.length - 1].serial\<close> reads a property of \<open>undefined\<close>, a TypeError.
\<close>

definition historyChunk ::
  "Serial \<Rightarrow> ('s, 'p) Callback \<Rightarrow> (HistoryCursor \<times> 's, 'p) Callback" where
  "historyChunk afterSerial cb cs chunk =
     (case cs of (c, s) \<Rightarrow>
       (case chunk of
          [] \<Rightarrow> Inl (TypeError, (c, s))
        | e0 # _ \<Rightarrow>
            let c1 = (if firstSerial_h c = -1 \<and> serial e0 \<noteq> None
                      then c\<lparr>firstSerial_h := the (serial e0)\<rparr> else c);
                c2 = c1\<lparr>lastSerial_h := (case serial (last chunk) of None \<Rightarrow> -1 | Some x \<Rightarrow> x)\<rparr>;
                validEventsAfter = filter (validAfter afterSerial) chunk
            in if length validEventsAfter = 0 then Inr (c2, s)
               else
                 let c3 = (if firstValidSerial c2 = -1 \<and> serial (hd validEventsAfter) \<noteq> None
                           then c2\<lparr>firstValidSerial := the (serial (hd validEventsAfter))\<rparr>
                           else c2)
                 in (case cb s validEventsAfter of
                       Inl (err, s') \<Rightarrow> Inl (err, (c3, s'))
                     | Inr s' \<Rightarrow> Inr (c3, s'))))"

definition getBoardHistory ::
  "('p BoardHistoryEntry \<Rightarrow> 'p BoardHistoryEntry) \<Rightarrow> ('i, 'c, 'a, 'p) DB \<Rightarrow> Id \<Rightarrow> Serial \<Rightarrow>
   ('s, 'p) Callback \<Rightarrow> 's \<Rightarrow> (error \<times> 's) + 's" where
  "getBoardHistory migrateEvent db bid afterSerial cb s =
     (case streamingBoardEventsQuery migrateEvent (selectEventsFrom db bid afterSerial)
             (historyChunk afterSerial cb) (initCursor, s) of
        Inl (err, (c, s')) \<Rightarrow> Inl (err, s')
      | Inr (c, s') \<Rightarrow>
          if lastSerial_h c = afterSerial then Inr s'
          else if firstValidSerial c = afterSerial + 1 then Inr s'
          else if firstValidSerial c = -1 then
            (if afterSerial = 0 then Inr s' else Inl (SerialInFuture afterSerial, s'))
          else Inl (NonContinuousTimeline afterSerial (firstValidSerial c) (lastSerial_h c), s'))"

section \<open>Loading a board\<close>

text \<open>The variables of \<open>fetchBoard\<close> that its chunk handler updates (\<open>i\<close> is \<open>loopIndex\<close>).\<close>

record ('i, 'c, 'a) LoadState =
  historyEventCount :: nat
  lastSerial :: Serial
  board :: "('i, 'c, 'a) Board"
  loopIndex :: nat
  rebuildingSnapshot :: bool

text \<open>The function \<open>chunk.reduce\<close> folds with, without its \<open>i++\<close>.\<close>

definition chunkStep ::
  "('i, 'c, 'a, 'p) Reducer \<Rightarrow> bool \<Rightarrow> ('i, 'c, 'a) Board \<Rightarrow> 'p BoardHistoryEntry \<Rightarrow>
   error + ('i, 'c, 'a) Board" where
  "chunkStep boardReducer rebuilding b e =
     (if action e = ''board.setAccessPolicy'' then
        (case assertNotNull (serial e) of
           Inl err \<Rightarrow> Inl err
         | Inr s \<Rightarrow> Inr (b\<lparr>serial_b := s\<rparr>))
      else boardReducer b e \<lparr>inplace = True, strictOnSerials = \<not> rebuilding\<rparr>)"

text \<open>\<open>chunk.reduce\<close>, counting \<open>i\<close> up before each step; the count survives a throw.\<close>

fun reduceChunk ::
  "('b \<Rightarrow> 'e \<Rightarrow> error + 'b) \<Rightarrow> 'b \<Rightarrow> nat \<Rightarrow> 'e list \<Rightarrow> (error \<times> nat) + ('b \<times> nat)" where
  "reduceChunk step b n [] = Inr (b, n)"
| "reduceChunk step b n (e # es) =
     (case step b e of
        Inl err \<Rightarrow> Inl (err, Suc n)
      | Inr b' \<Rightarrow> reduceChunk step b' (Suc n) es)"

definition updateBoardWithEventChunk ::
  "('i, 'c, 'a, 'p) Reducer \<Rightarrow> ('i, 'c, 'a) Board \<Rightarrow> (('i, 'c, 'a) LoadState, 'p) Callback" where
  "updateBoardWithEventChunk boardReducer snapshot st chunk =
     (case reduceChunk (chunkStep boardReducer (rebuildingSnapshot st)) (board st) (loopIndex st) chunk of
        Inl (err, n) \<Rightarrow> Inl (err, st\<lparr>loopIndex := n\<rparr>)
      | Inr (b, n) \<Rightarrow>
          let st1 = st\<lparr>board := b, loopIndex := n,
                       historyEventCount := historyEventCount st + length chunk\<rparr>
          in (case chunk of
                [] \<Rightarrow> Inl (TypeError, st1)
              | _ # _ \<Rightarrow>
                  Inr (st1\<lparr>lastSerial :=
                         (case serial (last chunk) of None \<Rightarrow> serial_b snapshot | Some x \<Rightarrow> x)\<rparr>)))"

text \<open>The variables as \<open>fetchBoard\<close> declares them, before any chunk.\<close>

definition startState :: "('i, 'c, 'a) Board \<Rightarrow> ('i, 'c, 'a) LoadState" where
  "startState snapshot =
     \<lparr>historyEventCount = 0, lastSerial = 0, board = snapshot, loopIndex = 0,
      rebuildingSnapshot = False\<rparr>"

text \<open>The start of the \<open>catch\<close> handler: the state the full replay starts from.\<close>

definition rebootState ::
  "('i, 'c, 'a) Board \<Rightarrow> ('i, 'c, 'a) LoadState \<Rightarrow> ('i, 'c, 'a) LoadState" where
  "rebootState snapshot st =
     st\<lparr>loopIndex := 0, board := snapshot\<lparr>items := Map.empty, connections := []\<rparr>,
        rebuildingSnapshot := True\<rparr>"

text \<open>\<open>x || 0\<close> on a number.\<close>

definition orZero :: "Serial \<Rightarrow> Serial" where
  "orZero x = (if x = 0 then 0 else x)"

definition loadedSerial :: "('i, 'c, 'a) Board \<Rightarrow> ('i, 'c, 'a) LoadState \<Rightarrow> Serial" where
  "loadedSerial snapshot st =
     orZero (if historyEventCount st > 0 then lastSerial st else serial_b snapshot)"

text \<open>The result type; its field \<open>board\<close> is \<open>loaded\<close> here.\<close>

record ('i, 'c, 'a) BoardAndAccessTokens =
  loaded :: "('i, 'c, 'a) Board"
  accessTokens :: "string list"

text \<open>
  \<open>fetchBoard\<close> from the computation of \<open>serial\<close> on: the snapshot write when it is
  due, the tokens, the result. The database after the call comes first.
\<close>

definition finishFetch ::
  "(('i, 'c, 'a) Board \<Rightarrow> ('i, 'c, 'a) Board) \<Rightarrow> ('i, 'c, 'a, 'p) DB \<Rightarrow> Id \<Rightarrow> ('i, 'c, 'a) Board \<Rightarrow>
   ('i, 'c, 'a) LoadState \<Rightarrow> ('i, 'c, 'a, 'p) DB \<times> ('i, 'c, 'a) BoardAndAccessTokens" where
  "finishFetch migrateBoard db bid snapshot st =
     (let s = loadedSerial snapshot st;
          db' = (if historyEventCount st > 1000 \<or> rebuildingSnapshot st
                 then saveBoardSnapshot (mkSnapshot migrateBoard (board st) s) db else db);
          tokens = map snd (filter (\<lambda>row. fst row = bid) (board_api_token db'))
      in (db', \<lparr>loaded = (board st)\<lparr>serial_b := s\<rparr>, accessTokens = tokens\<rparr>))"

text \<open>
  \<open>fetchBoard\<close>: \<open>null\<close> when the board has no row; otherwise the replay from the
  snapshot, on its failure the full replay in the \<open>catch\<close> handler, whose error is
  thrown on.
\<close>

definition fetchBoard ::
  "('i, 'c, 'a, 'p) Reducer \<Rightarrow> ('p BoardHistoryEntry \<Rightarrow> 'p BoardHistoryEntry) \<Rightarrow>
   (('i, 'c, 'a) Board \<Rightarrow> ('i, 'c, 'a) Board) \<Rightarrow> ('i, 'c, 'a, 'p) DB \<Rightarrow> Id \<Rightarrow>
   error + (('i, 'c, 'a, 'p) DB \<times> ('i, 'c, 'a) BoardAndAccessTokens option)" where
  "fetchBoard boardReducer migrateEvent migrateBoard db bid =
     (case selectBoard db bid of
        None \<Rightarrow> Inr (db, None)
      | Some snapshot \<Rightarrow>
          let cb = updateBoardWithEventChunk boardReducer snapshot
          in (case getBoardHistory migrateEvent db bid (serial_b snapshot) cb (startState snapshot) of
                Inr st \<Rightarrow>
                  (case finishFetch migrateBoard db bid snapshot st of
                     (db', r) \<Rightarrow> Inr (db', Some r))
              | Inl (err, st) \<Rightarrow>
                  (case getFullBoardHistory migrateEvent db bid cb (rebootState snapshot st) of
                     Inl (e, st') \<Rightarrow> Inl e
                   | Inr st' \<Rightarrow>
                       (case finishFetch migrateBoard db bid snapshot st' of
                          (db', r) \<Rightarrow> Inr (db', Some r)))))"

section \<open>The client's outbound queue\<close>

text \<open>
  The atom \<open>state\<close> and the socket. What the socket was given is a list of batches, the
  newest last; \<open>JSON.stringify\<close> of a batch is the batch. \<open>addOrReplaceEvent\<close>
  (\<open>common/src/action-folding\<close>) is a parameter.
\<close>

record 'e QueueState =
  queue :: "'e list"
  sent :: "'e list"

record 'e Client =
  state :: "'e QueueState"
  socket :: "'e list list"

definition initClient :: "'e Client" where
  "initClient = \<lparr>state = \<lparr>queue = [], sent = []\<rparr>, socket = []\<rparr>"

definition sendIfPossible :: "'e Client \<Rightarrow> 'e Client" where
  "sendIfPossible c =
     (let s = state c in
      if length (sent s) > 0 \<or> length (queue s) = 0 then c
      else \<lparr>state = \<lparr>queue = [], sent = queue s\<rparr>, socket = socket c @ [queue s]\<rparr>)"

definition ack :: "'e Client \<Rightarrow> 'e Client" where
  "ack c = sendIfPossible (c\<lparr>state := (state c)\<lparr>sent := []\<rparr>\<rparr>)"

definition enqueue :: "('e \<Rightarrow> 'e list \<Rightarrow> 'e list) \<Rightarrow> 'e \<Rightarrow> 'e Client \<Rightarrow> 'e Client" where
  "enqueue addOrReplaceEvent event c =
     sendIfPossible (c\<lparr>state := (state c)\<lparr>queue := addOrReplaceEvent event (queue (state c))\<rparr>\<rparr>)"

definition onConnect :: "'e Client \<Rightarrow> 'e Client" where
  "onConnect c = sendIfPossible (c\<lparr>state := (state c)\<lparr>sent := []\<rparr>\<rparr>)"

definition queueSize :: "'e Client \<Rightarrow> nat" where
  "queueSize c = length (queue (state c)) + length (sent (state c))"

datatype 'e Operation = Enqueue 'e | Ack | Reconnect

fun perform :: "('e \<Rightarrow> 'e list \<Rightarrow> 'e list) \<Rightarrow> 'e Client \<Rightarrow> 'e Operation \<Rightarrow> 'e Client" where
  "perform f c (Enqueue e) = enqueue f e c"
| "perform f c Ack = ack c"
| "perform f c Reconnect = onConnect c"

definition run :: "('e \<Rightarrow> 'e list \<Rightarrow> 'e list) \<Rightarrow> 'e Operation list \<Rightarrow> 'e Client" where
  "run f ops = foldl (perform f) initClient ops"

text \<open>
  The reconnect of the specification (section 4.5), in its words: the entries in
  flight go back to the front of the queue, in order, and a send is attempted.
\<close>

definition onReconnect_spec :: "'e Client \<Rightarrow> 'e Client" where
  "onReconnect_spec c =
     sendIfPossible (c\<lparr>state := \<lparr>queue = sent (state c) @ queue (state c), sent = []\<rparr>\<rparr>)"

text \<open>
  What each operation does to the atom before it calls \<open>sendIfPossible\<close>: its
  \<open>state.modify\<close>.
\<close>

definition beforeSend :: "('e \<Rightarrow> 'e list \<Rightarrow> 'e list) \<Rightarrow> 'e Client \<Rightarrow> 'e Operation \<Rightarrow> 'e Client" where
  "beforeSend f c op =
     (case op of
        Enqueue e \<Rightarrow> c\<lparr>state := (state c)\<lparr>queue := f e (queue (state c))\<rparr>\<rparr>
      | Ack \<Rightarrow> c\<lparr>state := (state c)\<lparr>sent := []\<rparr>\<rparr>
      | Reconnect \<Rightarrow> c\<lparr>state := (state c)\<lparr>sent := []\<rparr>\<rparr>)"

text \<open>At most one batch is outstanding, and it is the last one the socket was given.\<close>

definition oneBatch :: "'e Client \<Rightarrow> bool" where
  "oneBatch c = (sent (state c) = [] \<or> (socket c \<noteq> [] \<and> last (socket c) = sent (state c)))"

text \<open>A folding function for examples: nothing folds, the event goes to the tail.\<close>

definition fifo :: "nat \<Rightarrow> nat list \<Rightarrow> nat list" where
  "fifo e q = q @ [e]"

section \<open>Notions the statements use\<close>

text \<open>
  All events of the rows a query returned, migrated, in stream order (a row without
  events has none).
\<close>

definition streamedEvents ::
  "('p BoardHistoryEntry \<Rightarrow> 'p BoardHistoryEntry) \<Rightarrow> 'p BoardHistoryEntry list option list \<Rightarrow>
   'p BoardHistoryEntry list" where
  "streamedEvents migrateEvent rows =
     map migrateEvent (concat (map (\<lambda>row. case row of None \<Rightarrow> [] | Some chunk \<Rightarrow> chunk) rows))"

text \<open>Every row of the stream has an events array, and none is empty.\<close>

definition wellFormedRows :: "'p BoardHistoryEntry list option list \<Rightarrow> bool" where
  "wellFormedRows rows = list_all (\<lambda>row. case row of None \<Rightarrow> False | Some chunk \<Rightarrow> chunk \<noteq> []) rows"

text \<open>
  The three ways a streamed history is accepted after \<open>afterSerial\<close>: nothing newer and
  the request is from serial 0; the last streamed serial is \<open>afterSerial\<close>; the first
  newer event has serial \<open>afterSerial + 1\<close>.
\<close>

definition historyContinuesFrom :: "Serial \<Rightarrow> 'p BoardHistoryEntry list \<Rightarrow> bool" where
  "historyContinuesFrom afterSerial evs =
     (let newer = filter (validAfter afterSerial) evs in
        (newer = [] \<and> afterSerial = 0)
        \<or> (evs \<noteq> [] \<and> serial (last evs) = Some afterSerial)
        \<or> (newer \<noteq> [] \<and> serial (hd newer) = Some (afterSerial + 1)))"

text \<open>A reducer that is given the same options whatever its caller passes.\<close>

definition withOptions :: "ReducerOptions \<Rightarrow> ('i, 'c, 'a, 'p) Reducer \<Rightarrow> ('i, 'c, 'a, 'p) Reducer" where
  "withOptions opts boardReducer = (\<lambda>b e given. boardReducer b e opts)"

section \<open>Example data\<close>

definition entry :: "string \<Rightarrow> Serial \<Rightarrow> unit BoardHistoryEntry" where
  "entry a s = \<lparr>action = a, serial = Some s, firstSerial = None, payload = ()\<rparr>"

definition demoBoard :: "Serial \<Rightarrow> (unit, unit, unit) Board" where
  "demoBoard s =
     \<lparr>id_b = ''b'', name = ''demo'', serial_b = s, items = Map.empty, connections = [],
      accessPolicy = None\<rparr>"

definition demoBundle :: "Serial list \<Rightarrow> unit BoardEventRow" where
  "demoBundle ss =
     \<lparr>board_id = ''b'', first_serial = hd ss, last_serial = last ss,
      events = Some (map (entry ''item.add'') ss), saved_at = 0\<rparr>"

definition demoDB :: "Serial \<Rightarrow> Serial list list \<Rightarrow> (unit, unit, unit, unit) DB" where
  "demoDB s bundles =
     \<lparr>board_table = [''b'' \<mapsto> \<lparr>name_col = ''demo'', content = demoBoard s\<rparr>],
      policy_columns = (\<lambda>bid. None),
      board_event = map demoBundle bundles,
      board_api_token = [(''b'', ''token'')]\<rparr>"


text \<open>A callback that never throws: it counts the events it is given.\<close>

definition countingCallback :: "(nat, unit) Callback" where
  "countingCallback n chunk = Inr (n + length chunk)"

section \<open>Notions the proofs use\<close>

text \<open>
  What the cursor of \<open>getBoardHistory\<close> holds after a stream, read off the streamed
  events: the serial of the last one (\<open>-1\<close> when it has none), and the serial of the
  first one newer than \<open>afterSerial\<close> (\<open>-1\<close> when there is none).
\<close>

definition lastSerialOf :: "'p BoardHistoryEntry list \<Rightarrow> Serial" where
  "lastSerialOf evs = (case serial (last evs) of None \<Rightarrow> -1 | Some x \<Rightarrow> x)"

definition firstValidOf :: "Serial \<Rightarrow> 'p BoardHistoryEntry list \<Rightarrow> Serial" where
  "firstValidOf a evs =
     (if filter (validAfter a) evs = [] then -1 else the (serial (hd (filter (validAfter a) evs))))"

text \<open>
  Two neighbours of a sequence of serials are in step when the second is the first plus
  one. A missing serial is in step with nothing.
\<close>

definition nextSerial :: "Serial option \<Rightarrow> Serial option \<Rightarrow> bool" where
  "nextSerial a b = (case a of None \<Rightarrow> False | Some x \<Rightarrow> b = Some (x + 1))"

section \<open>Storing a bundle: theorems\<close>

text \<open>
  C10: \<open>storeEventHistoryBundle\<close> with an empty list of entries does nothing and raises
  nothing: it returns the database it was given, with no row added to \<open>board_event\<close>.
\<close>

theorem storeEventHistoryBundle_empty:
  "storeEventHistoryBundle boardId [] savedAt db = Inr db"
  by (simp add: storeEventHistoryBundle_def)

text \<open>
  C9 as it can be stated of the code: a non-empty bundle whose first entry is not a folded
  one and whose first and last entries carry serials is inserted as one row, whatever
  the board's rows hold already; the call fails exactly for a folded first entry or a
  missing first or last serial. No comparison with the store's tail takes part.
\<close>

theorem storeEventHistoryBundle_no_tail_check:
  "(isl (storeEventHistoryBundle boardId evs savedAt db) \<longleftrightarrow>
      evs \<noteq> [] \<and> (firstSerial (hd evs) \<noteq> None \<or> serial (hd evs) = None \<or> serial (last evs) = None))
   \<and> (evs \<noteq> [] \<and> firstSerial (hd evs) = None \<and> serial (hd evs) = Some fs \<and> serial (last evs) = Some ls
        \<longrightarrow> storeEventHistoryBundle boardId evs savedAt db =
              Inr (db\<lparr>board_event := board_event db @
                     [\<lparr>board_id = boardId, first_serial = fs, last_serial = ls,
                       events = Some evs, saved_at = savedAt\<rparr>]\<rparr>))"
  by (auto simp: storeEventHistoryBundle_def assertNotNull_def split: option.splits)

text \<open>
  C9 fails on the code: with the board's highest persisted serial at 5, a bundle that
  starts at serial 8 is stored without an error.
\<close>

theorem storeEventHistoryBundle_accepts_gap:
  "highestPersistedSerial (demoDB 5 [[1, 2, 3, 4, 5]]) ''b'' = 5
   \<and> serial (hd [entry ''item.add'' 8]) = Some 8
   \<and> storeEventHistoryBundle ''b'' [entry ''item.add'' 8] 1 (demoDB 5 [[1, 2, 3, 4, 5]])
     = Inr ((demoDB 5 [[1, 2, 3, 4, 5]])\<lparr>board_event :=
         [demoBundle [1, 2, 3, 4, 5],
          \<lparr>board_id = ''b'', first_serial = 8, last_serial = 8,
            events = Some [entry ''item.add'' 8], saved_at = 1\<rparr>]\<rparr>)"
  by (simp add: highestPersistedSerial_def storeEventHistoryBundle_def assertNotNull_def
      demoDB_def demoBundle_def entry_def)

text \<open>
  The bundle starting at 8 after a tail of 5, stored.
\<close>

theorem storeEventHistoryBundle_no_tail_check_witness:
  "[entry ''item.add'' 8] \<noteq> []
   \<and> firstSerial (hd [entry ''item.add'' 8]) = None
   \<and> serial (hd [entry ''item.add'' 8]) = Some 8
   \<and> serial (last [entry ''item.add'' 8]) = Some 8
   \<and> \<not> isl (storeEventHistoryBundle ''b'' [entry ''item.add'' 8] 1 (demoDB 5 [[1, 2, 3, 4, 5]]))
   \<and> board_event (projr (storeEventHistoryBundle ''b'' [entry ''item.add'' 8] 1
        (demoDB 5 [[1, 2, 3, 4, 5]])))
      = [demoBundle [1, 2, 3, 4, 5],
         \<lparr>board_id = ''b'', first_serial = 8, last_serial = 8,
           events = Some [entry ''item.add'' 8], saved_at = 1\<rparr>]"
proof -
  have h: "[entry ''item.add'' 8] \<noteq> [] \<and> firstSerial (hd [entry ''item.add'' 8]) = None
      \<and> serial (hd [entry ''item.add'' 8]) = Some 8 \<and> serial (last [entry ''item.add'' 8]) = Some 8"
    by (simp add: entry_def)
  show ?thesis
    using h storeEventHistoryBundle_no_tail_check [where evs = "[entry ''item.add'' 8]"
        and fs = 8 and ls = 8 and boardId = "''b''" and savedAt = 1
        and db = "demoDB 5 [[1, 2, 3, 4, 5]]"]
    by (simp add: demoDB_def)
qed

section \<open>Continuity: theorems\<close>

lemma verifyEventArrayContinuity_Cons:
  "verifyEventArrayContinuity bid init (e # es) =
     (serial e = Some (init + 1) \<and> verifyEventArrayContinuity bid (init + 1) es)"
  by (auto simp: verifyTwoPoints_def)

lemma verify_neighbours:
  "verifyEventArrayContinuity bid init evs \<longleftrightarrow>
     list_all (\<lambda>(a, b). nextSerial a b) (zip (Some init # map serial evs) (map serial evs))"
proof (induction evs arbitrary: init)
  case Nil
  show ?case by simp
next
  case (Cons e es)
  show ?case
  proof (cases "serial e = Some (init + 1)")
    case True
    then show ?thesis
      using Cons.IH [of "init + 1"]
      by (simp add: verifyEventArrayContinuity_Cons nextSerial_def
          del: verifyEventArrayContinuity.simps)
  next
    case False
    then show ?thesis
      by (simp add: verifyEventArrayContinuity_Cons nextSerial_def
          del: verifyEventArrayContinuity.simps)
  qed
qed

lemma verify_progression:
  "verifyEventArrayContinuity bid init evs \<longleftrightarrow>
     map serial evs = map (\<lambda>k. Some (init + 1 + int k)) [0..<length evs]"
proof (induction evs arbitrary: init)
  case Nil
  show ?case by simp
next
  case (Cons e es)
  have "map (\<lambda>k. Some (init + 1 + int k)) [0..<length (e # es)] =
        Some (init + 1) # map (\<lambda>k. Some (init + 1 + 1 + int k)) [0..<length es]"
    by (simp add: upt_conv_Cons map_Suc_upt [symmetric] del: upt_Suc)
  then show ?case
    using Cons.IH [of "init + 1"]
    by (simp add: verifyEventArrayContinuity_Cons del: upt_Suc verifyEventArrayContinuity.simps)
qed

text \<open>
  C6: \<open>verifyEventArrayContinuity\<close> answers false exactly when some pair of neighbours in
  the sequence of serials, the start serial put in front, is out of step (the second is
  not the first plus one); and it answers true exactly when the serials are
  \<open>init + 1, init + 2, ...\<close>, each the previous accepted value plus one.
\<close>

theorem verifyEventArrayContinuity_iff:
  "(\<not> verifyEventArrayContinuity bid init evs \<longleftrightarrow>
      (\<exists>(a, b) \<in> set (zip (Some init # map serial evs) (map serial evs)). \<not> nextSerial a b))
   \<and> (verifyEventArrayContinuity bid init evs \<longleftrightarrow>
      map serial evs = map (\<lambda>k. Some (init + 1 + int k)) [0..<length evs])"
  using verify_neighbours [of bid init evs] verify_progression [of bid init evs]
  by (auto simp: list_all_iff)

section \<open>The outbound queue: theorems\<close>

lemma perform_beforeSend: "perform f c op = sendIfPossible (beforeSend f c op)"
  by (cases op) (simp_all add: beforeSend_def enqueue_def ack_def onConnect_def)

lemma sendIfPossible_cases:
  "sendIfPossible p =
     (if sent (state p) = [] \<and> queue (state p) \<noteq> []
      then \<lparr>state = \<lparr>queue = [], sent = queue (state p)\<rparr>, socket = socket p @ [queue (state p)]\<rparr>
      else p)"
  by (simp add: sendIfPossible_def Let_def)

lemma socket_beforeSend: "socket (beforeSend f c op) = socket c"
  by (cases op) (simp_all add: beforeSend_def)

lemma enqueue_in_flight:
  "sent (state c) \<noteq> [] \<Longrightarrow>
     socket (enqueue f e c) = socket c \<and> sent (state (enqueue f e c)) = sent (state c)"
  by (simp add: enqueue_def sendIfPossible_cases)

lemma enqueues_in_flight:
  "sent (state c) \<noteq> [] \<Longrightarrow>
     socket (foldl (\<lambda>x e. enqueue f e x) c es) = socket c \<and>
     sent (state (foldl (\<lambda>x e. enqueue f e x) c es)) = sent (state c)"
proof (induction es arbitrary: c)
  case Nil
  show ?case by simp
next
  case (Cons e es)
  have step: "socket (enqueue f e c) = socket c" "sent (state (enqueue f e c)) = sent (state c)"
    using enqueue_in_flight [OF Cons.prems] by simp_all
  with Cons.prems have "sent (state (enqueue f e c)) \<noteq> []" by simp
  from Cons.IH [OF this] step show ?case by simp
qed

lemma oneBatch_perform: "oneBatch c \<Longrightarrow> oneBatch (perform f c op)"
  by (cases op) (auto simp: oneBatch_def enqueue_def ack_def onConnect_def sendIfPossible_cases)

lemma oneBatch_run: "oneBatch (run f ops)"
proof (induction ops rule: rev_induct)
  case Nil
  show ?case by (simp add: run_def initClient_def oneBatch_def)
next
  case (snoc op ops)
  then show ?case using oneBatch_perform [of "run f ops" f op] by (simp add: run_def)
qed

text \<open>
  C3: after any sequence of operations from the empty state, the next operation
  transmits exactly when, after its update of the atom, nothing is in flight and the
  queue is not empty; it then hands the socket the whole queue as one batch, which
  becomes the batch in flight, and empties the queue; otherwise the socket gets nothing.
  While a batch is in flight, no run of \<open>enqueue\<close>s transmits anything or changes the
  batch in flight: only \<open>ack\<close> (or \<open>onConnect\<close>) clears it. The batch in flight is always
  the last one transmitted.
\<close>

theorem outbound_queue_discipline:
  "(let c = run f ops; p = beforeSend f c op; c' = perform f c op in
     (if sent (state p) = [] \<and> queue (state p) \<noteq> []
      then socket c' = socket c @ [queue (state p)] \<and>
           state c' = \<lparr>queue = [], sent = queue (state p)\<rparr>
      else c' = p \<and> socket c' = socket c)
     \<and> (sent (state c) \<noteq> [] \<longrightarrow>
          socket (foldl (\<lambda>x e. enqueue f e x) c es) = socket c \<and>
          sent (state (foldl (\<lambda>x e. enqueue f e x) c es)) = sent (state c))
     \<and> (sent (state c) \<noteq> [] \<longrightarrow> socket c \<noteq> [] \<and> last (socket c) = sent (state c)))"
proof -
  let ?c = "run f ops"
  let ?p = "beforeSend f ?c op"
  have a: "if sent (state ?p) = [] \<and> queue (state ?p) \<noteq> []
      then socket (perform f ?c op) = socket ?c @ [queue (state ?p)] \<and>
           state (perform f ?c op) = \<lparr>queue = [], sent = queue (state ?p)\<rparr>
      else perform f ?c op = ?p \<and> socket (perform f ?c op) = socket ?c"
    by (simp add: perform_beforeSend sendIfPossible_cases socket_beforeSend)
  have b: "sent (state ?c) \<noteq> [] \<longrightarrow>
          socket (foldl (\<lambda>x e. enqueue f e x) ?c es) = socket ?c \<and>
          sent (state (foldl (\<lambda>x e. enqueue f e x) ?c es)) = sent (state ?c)"
    using enqueues_in_flight [of ?c f es] by blast
  have c: "sent (state ?c) \<noteq> [] \<longrightarrow> socket ?c \<noteq> [] \<and> last (socket ?c) = sent (state ?c)"
    using oneBatch_run [of f ops] unfolding oneBatch_def by blast
  from a b c show ?thesis unfolding Let_def by blast
qed

text \<open>
  The discipline at work: event 1 is sent at once, event 2 waits behind it, events 3
  and 4 enqueued meanwhile transmit nothing, and the acknowledgment sends the queue.
\<close>

theorem outbound_queue_discipline_witness:
  "sent (state (run fifo [Enqueue 1, Enqueue 2])) = [1]
   \<and> socket (run fifo [Enqueue 1, Enqueue 2]) = [[1]]
   \<and> socket (perform fifo (run fifo [Enqueue 1, Enqueue 2]) (Enqueue 3)) = [[1]]
   \<and> socket (foldl (\<lambda>x e. enqueue fifo e x) (run fifo [Enqueue 1, Enqueue 2]) [3, 4]) = [[1]]
   \<and> socket (perform fifo (run fifo [Enqueue 1, Enqueue 2]) Ack) = [[1], [2]]
   \<and> state (perform fifo (run fifo [Enqueue 1, Enqueue 2]) Ack) = \<lparr>queue = [], sent = [2]\<rparr>"
proof -
  have r: "run fifo [Enqueue 1, Enqueue 2] = \<lparr>state = \<lparr>queue = [2], sent = [1]\<rparr>, socket = [[1]]\<rparr>"
    by (simp add: run_def initClient_def enqueue_def sendIfPossible_def fifo_def)
  show ?thesis
    using outbound_queue_discipline [of fifo "[Enqueue 1, Enqueue 2]" "Enqueue 3" "[3, 4]"]
      outbound_queue_discipline [of fifo "[Enqueue 1, Enqueue 2]" Ack "[3, 4]"]
    unfolding r Let_def
    by (simp add: beforeSend_def fifo_def enqueue_def ack_def sendIfPossible_def)
qed

text \<open>
  C2 fails on the code: with event 1 in flight and event 2 queued, \<open>onConnect\<close> drops
  event 1 and sends only event 2, where the reconnect of the specification would send
  both, event 1 first.
\<close>

theorem onConnect_drops_in_flight:
  "onConnect \<lparr>state = \<lparr>queue = [2::nat], sent = [1]\<rparr>, socket = [[1]]\<rparr>
     = \<lparr>state = \<lparr>queue = [], sent = [2]\<rparr>, socket = [[1], [2]]\<rparr>
   \<and> onReconnect_spec \<lparr>state = \<lparr>queue = [2::nat], sent = [1]\<rparr>, socket = [[1]]\<rparr>
     = \<lparr>state = \<lparr>queue = [], sent = [1, 2]\<rparr>, socket = [[1], [1, 2]]\<rparr>
   \<and> onConnect \<lparr>state = \<lparr>queue = [2::nat], sent = [1]\<rparr>, socket = [[1]]\<rparr>
     \<noteq> onReconnect_spec \<lparr>state = \<lparr>queue = [2::nat], sent = [1]\<rparr>, socket = [[1]]\<rparr>"
  by (simp add: onConnect_def onReconnect_spec_def sendIfPossible_def)

text \<open>
  C2 as the code has it: \<open>onConnect\<close> forgets the batch in flight (its events are not put
  back in the queue and are not sent again), leaves the queue as it is, and attempts a
  send: a non-empty queue is transmitted whole as one batch and becomes the batch in
  flight; with an empty queue nothing is transmitted.
\<close>

theorem onConnect_clears_and_sends:
  "onConnect c =
     (if queue (state c) = [] then c\<lparr>state := \<lparr>queue = [], sent = []\<rparr>\<rparr>
      else \<lparr>state = \<lparr>queue = [], sent = queue (state c)\<rparr>,
            socket = socket c @ [queue (state c)]\<rparr>)"
  by (simp add: onConnect_def sendIfPossible_def)

section \<open>Loading a board: theorems\<close>

subsection \<open>The options the reducer is given\<close>

lemma chunkStep_withOptions:
  "chunkStep (withOptions \<lparr>inplace = True, strictOnSerials = \<not> rb\<rparr> R) rb = chunkStep R rb"
  by (rule ext, rule ext) (simp add: chunkStep_def withOptions_def)

lemma update_withOptions:
  "updateBoardWithEventChunk
     (withOptions \<lparr>inplace = True, strictOnSerials = \<not> rebuildingSnapshot st\<rparr> R) snap st chunk =
   updateBoardWithEventChunk R snap st chunk"
  by (simp add: updateBoardWithEventChunk_def chunkStep_withOptions)

lemma update_keeps_flag:
  "updateBoardWithEventChunk R snap st chunk = Inr st' \<Longrightarrow>
     rebuildingSnapshot st' = rebuildingSnapshot st"
  by (auto simp: updateBoardWithEventChunk_def Let_def split: sum.splits prod.splits list.splits)

lemma update_count:
  "updateBoardWithEventChunk R snap st chunk = Inr st' \<Longrightarrow>
     historyEventCount st' = historyEventCount st + length chunk"
  by (auto simp: updateBoardWithEventChunk_def Let_def split: sum.splits prod.splits list.splits)

lemma streaming_cong:
  assumes "P s"
    and "\<And>s chunk. P s \<Longrightarrow> cb1 s chunk = cb2 s chunk"
    and "\<And>s chunk s'. P s \<Longrightarrow> cb1 s chunk = Inr s' \<Longrightarrow> P s'"
  shows "streamingBoardEventsQuery m rows cb1 s = streamingBoardEventsQuery m rows cb2 s"
  using assms(1)
proof (induction rows arbitrary: s)
  case Nil
  show ?case by simp
next
  case (Cons row rows)
  show ?case
  proof (cases row)
    case None
    then show ?thesis by simp
  next
    case (Some chunk)
    have eq: "cb1 s (map m chunk) = cb2 s (map m chunk)"
      using assms(2) Cons.prems by simp
    show ?thesis
    proof (cases "cb1 s (map m chunk)")
      case (Inl failed)
      moreover from Inl eq have "cb2 s (map m chunk) = Inl failed" by simp
      ultimately show ?thesis using Some by simp
    next
      case (Inr s')
      then have "P s'" using assms(3) Cons.prems by blast
      moreover from Inr eq have "cb2 s (map m chunk) = Inr s'" by simp
      ultimately show ?thesis using Cons.IH [of s'] Inr Some by simp
    qed
  qed
qed

lemma historyChunk_cong:
  "cb1 s = cb2 s \<Longrightarrow> historyChunk a cb1 (c, s) chunk = historyChunk a cb2 (c, s) chunk"
  by (simp add: historyChunk_def Let_def split: list.splits)

lemma historyChunk_state:
  assumes "\<And>s chunk s'. P s \<Longrightarrow> cb s chunk = Inr s' \<Longrightarrow> P s'" and "P s"
    and "historyChunk a cb (c, s) chunk = Inr (c', s')"
  shows "P s'"
  using assms(3,2) assms(1)
  by (auto simp: historyChunk_def Let_def split: list.splits if_splits sum.splits prod.splits)

lemma getBoardHistory_strict:
  assumes "\<not> rebuildingSnapshot st"
  shows "getBoardHistory m db bid a (updateBoardWithEventChunk R snap) st =
         getBoardHistory m db bid a
           (updateBoardWithEventChunk (withOptions \<lparr>inplace = True, strictOnSerials = True\<rparr> R) snap) st"
proof -
  let ?S = "withOptions \<lparr>inplace = True, strictOnSerials = True\<rparr> R"
  let ?P = "\<lambda>cs :: HistoryCursor \<times> ('a, 'b, 'c) LoadState. \<not> rebuildingSnapshot (snd cs)"
  have same: "updateBoardWithEventChunk R snap s = updateBoardWithEventChunk ?S snap s"
    if "\<not> rebuildingSnapshot s" for s
    using that update_withOptions [of s R snap] by (intro ext) simp
  have "streamingBoardEventsQuery m (selectEventsFrom db bid a)
          (historyChunk a (updateBoardWithEventChunk R snap)) (initCursor, st) =
        streamingBoardEventsQuery m (selectEventsFrom db bid a)
          (historyChunk a (updateBoardWithEventChunk ?S snap)) (initCursor, st)"
  proof (rule streaming_cong [where P = ?P])
    show "?P (initCursor, st)" using assms by simp
  next
    fix cs :: "HistoryCursor \<times> ('a, 'b, 'c) LoadState" and chunk
    assume "?P cs"
    then have "updateBoardWithEventChunk R snap (snd cs) = updateBoardWithEventChunk ?S snap (snd cs)"
      by (simp add: same)
    then have "historyChunk a (updateBoardWithEventChunk R snap) (fst cs, snd cs) chunk =
               historyChunk a (updateBoardWithEventChunk ?S snap) (fst cs, snd cs) chunk"
      by (rule historyChunk_cong)
    then show "historyChunk a (updateBoardWithEventChunk R snap) cs chunk =
               historyChunk a (updateBoardWithEventChunk ?S snap) cs chunk"
      by simp
  next
    fix cs cs' :: "HistoryCursor \<times> ('a, 'b, 'c) LoadState" and chunk
    assume "?P cs" and "historyChunk a (updateBoardWithEventChunk R snap) cs chunk = Inr cs'"
    then show "?P cs'"
      using historyChunk_state [where P = "\<lambda>s. \<not> rebuildingSnapshot s"
          and cb = "updateBoardWithEventChunk R snap" and s = "snd cs" and c = "fst cs"
          and s' = "snd cs'" and c' = "fst cs'" and a = a and chunk = chunk]
        update_keeps_flag [of R snap]
      by auto
  qed
  then show ?thesis by (simp add: getBoardHistory_def)
qed

text \<open>
  C4 as the code has it: in the replay from the snapshot (\<open>rebuildingSnapshot\<close> is false
  from the start of \<open>fetchBoard\<close> until the \<open>catch\<close> handler sets it) every entry
  that is not an access-policy change is folded by \<open>boardReducer\<close> with
  \<open>inplace = true\<close> and \<open>strictOnSerials = true\<close>: the replay, and the whole load when
  that replay succeeds, come out the same with a reducer that is strict whatever it is
  passed. Only in the rebuild is \<open>strictOnSerials\<close> false.
\<close>

theorem snapshot_replay_is_strict:
  "getBoardHistory m db bid a (updateBoardWithEventChunk R snap) (startState snap0) =
     getBoardHistory m db bid a
       (updateBoardWithEventChunk (withOptions \<lparr>inplace = True, strictOnSerials = True\<rparr> R) snap)
       (startState snap0)
   \<and> (\<not> isl (getBoardHistory m db bid (serial_b snap)
                (updateBoardWithEventChunk R snap) (startState snap)) \<and>
        selectBoard db bid = Some snap \<longrightarrow>
        fetchBoard R m mb db bid =
        fetchBoard (withOptions \<lparr>inplace = True, strictOnSerials = True\<rparr> R) m mb db bid)
   \<and> (action e \<noteq> ''board.setAccessPolicy'' \<longrightarrow>
        chunkStep R False b e = R b e \<lparr>inplace = True, strictOnSerials = True\<rparr> \<and>
        chunkStep R True b e = R b e \<lparr>inplace = True, strictOnSerials = False\<rparr>)"
proof -
  have flag: "\<not> rebuildingSnapshot (startState x)" for x :: "('a, 'b, 'c) Board"
    by (simp add: startState_def)
  have one: "getBoardHistory m db bid a (updateBoardWithEventChunk R snap) (startState snap0) =
     getBoardHistory m db bid a
       (updateBoardWithEventChunk (withOptions \<lparr>inplace = True, strictOnSerials = True\<rparr> R) snap)
       (startState snap0)"
    by (rule getBoardHistory_strict [OF flag])
  have two: "fetchBoard R m mb db bid =
        fetchBoard (withOptions \<lparr>inplace = True, strictOnSerials = True\<rparr> R) m mb db bid"
    if "\<not> isl (getBoardHistory m db bid (serial_b snap)
                (updateBoardWithEventChunk R snap) (startState snap))"
      and "selectBoard db bid = Some snap"
    using that getBoardHistory_strict [OF flag, of m db bid "serial_b snap" R snap snap]
    by (auto simp: fetchBoard_def Let_def split: sum.splits)
  have three: "action e \<noteq> ''board.setAccessPolicy'' \<longrightarrow>
        chunkStep R False b e = R b e \<lparr>inplace = True, strictOnSerials = True\<rparr> \<and>
        chunkStep R True b e = R b e \<lparr>inplace = True, strictOnSerials = False\<rparr>"
    by (simp add: chunkStep_def)
  from one two three show ?thesis by blast
qed

subsection \<open>Worked examples\<close>

lemmas demo_defs = demoDB_def demoBundle_def demoBoard_def entry_def startState_def
lemmas load_defs = fetchBoard_def getBoardHistory_def getFullBoardHistory_def selectBoard_def
  selectEventsFrom_def selectAllEvents_def historyChunk_def updateBoardWithEventChunk_def
  chunkStep_def validAfter_def initCursor_def rebootState_def finishFetch_def loadedSerial_def
  orZero_def saveBoardSnapshot_def mkSnapshot_def serialReducer_def withOptions_def Let_def

lemma demo_replay:
  "getBoardHistory id (demoDB 0 [[1, 2], [3]]) ''b'' 0
     (updateBoardWithEventChunk serialReducer (demoBoard 0)) (startState (demoBoard 0))
   = Inr \<lparr>historyEventCount = 3, lastSerial = 3, board = demoBoard 3, loopIndex = 3,
          rebuildingSnapshot = False\<rparr>"
  by (simp add: demo_defs load_defs)

lemma demo_gap:
  "getBoardHistory id (demoDB 5 [[6, 7], [9, 10]]) ''b'' 5
     (updateBoardWithEventChunk serialReducer (demoBoard 5)) (startState (demoBoard 5))
   = Inl (ReducerError ''Serial skip'',
       \<lparr>historyEventCount = 2, lastSerial = 7, board = demoBoard 7, loopIndex = 3,
          rebuildingSnapshot = False\<rparr>)"
  by (simp add: demo_defs load_defs)

lemma demo_select: "selectBoard (demoDB s bs) ''b'' = Some (demoBoard s)"
  by (simp add: demo_defs selectBoard_def)

lemma demo_serial: "serial_b (demoBoard s) = s"
  by (simp add: demoBoard_def)

text \<open>
  The strict replay on a board at serial 0 with bundles 1, 2 and 3.
\<close>

theorem snapshot_replay_is_strict_witness:
  "\<not> isl (getBoardHistory id (demoDB 0 [[1, 2], [3]]) ''b'' (serial_b (demoBoard 0))
            (updateBoardWithEventChunk serialReducer (demoBoard 0)) (startState (demoBoard 0)))
   \<and> selectBoard (demoDB 0 [[1, 2], [3]]) ''b'' = Some (demoBoard 0)
   \<and> fetchBoard serialReducer id id (demoDB 0 [[1, 2], [3]]) ''b'' =
       fetchBoard (withOptions \<lparr>inplace = True, strictOnSerials = True\<rparr> serialReducer) id id
         (demoDB 0 [[1, 2], [3]]) ''b''
   \<and> action (entry ''item.add'' 1) \<noteq> ''board.setAccessPolicy''
   \<and> chunkStep serialReducer False (demoBoard 0) (entry ''item.add'' 1) =
       serialReducer (demoBoard 0) (entry ''item.add'' 1) \<lparr>inplace = True, strictOnSerials = True\<rparr>"
proof -
  have h1: "\<not> isl (getBoardHistory id (demoDB 0 [[1, 2], [3]]) ''b'' (serial_b (demoBoard 0))
            (updateBoardWithEventChunk serialReducer (demoBoard 0)) (startState (demoBoard 0)))"
    by (simp add: demo_serial demo_replay)
  have h2: "selectBoard (demoDB 0 [[1, 2], [3]]) ''b'' = Some (demoBoard 0)"
    by (rule demo_select)
  have h3: "action (entry ''item.add'' 1) \<noteq> ''board.setAccessPolicy''"
    by (simp add: entry_def)
  show ?thesis
    using h1 h2 h3
      snapshot_replay_is_strict [where R = serialReducer and m = id and mb = id
        and db = "demoDB 0 [[1, 2], [3]]" and bid = "''b''" and snap = "demoBoard 0"
        and e = "entry ''item.add'' 1" and b = "demoBoard 0"]
    by blast
qed

text \<open>
  C4 fails on the code as stated: in the replay from the snapshot the chunk handler
  rejects an entry with serial 5 on a board at serial 0, which a fold with
  \<open>strictOnSerials = false\<close> accepts.
\<close>

theorem snapshot_replay_rejects_gap:
  "updateBoardWithEventChunk serialReducer (demoBoard 0) (startState (demoBoard 0))
     [entry ''item.add'' 5]
     = Inl (ReducerError ''Serial skip'', (startState (demoBoard 0))\<lparr>loopIndex := 1\<rparr>)
   \<and> updateBoardWithEventChunk
       (withOptions \<lparr>inplace = True, strictOnSerials = False\<rparr> serialReducer)
       (demoBoard 0) (startState (demoBoard 0)) [entry ''item.add'' 5]
     = Inr \<lparr>historyEventCount = 1, lastSerial = 5, board = demoBoard 5, loopIndex = 1,
            rebuildingSnapshot = False\<rparr>"
  by (simp add: demo_defs load_defs)

subsection \<open>Access-policy changes\<close>

text \<open>
  C7: an access-policy change that carries a serial leaves the board as it was but for
  the serial, which becomes the event's, in the replay from the snapshot and in the
  rebuild alike; the reducer is not called, and the access policy stays.
\<close>

theorem setAccessPolicy_only_advances_serial:
  assumes "action e = ''board.setAccessPolicy''" and "serial e = Some s"
  shows "chunkStep R rebuilding b e = Inr (b\<lparr>serial_b := s\<rparr>)
     \<and> updateBoardWithEventChunk R snapshot st [e] =
         Inr (st\<lparr>board := (board st)\<lparr>serial_b := s\<rparr>, loopIndex := Suc (loopIndex st),
                historyEventCount := historyEventCount st + 1, lastSerial := s\<rparr>)
     \<and> accessPolicy (b\<lparr>serial_b := s\<rparr>) = accessPolicy b"
  using assms by (simp add: chunkStep_def assertNotNull_def updateBoardWithEventChunk_def)

text \<open>
  An access-policy change with serial 4 on a board at serial 3.
\<close>

theorem setAccessPolicy_only_advances_serial_witness:
  "action (entry ''board.setAccessPolicy'' 4) = ''board.setAccessPolicy''
   \<and> serial (entry ''board.setAccessPolicy'' 4) = Some 4
   \<and> chunkStep serialReducer False (demoBoard 3) (entry ''board.setAccessPolicy'' 4)
       = Inr (demoBoard 4)
   \<and> updateBoardWithEventChunk serialReducer (demoBoard 3) (startState (demoBoard 3))
       [entry ''board.setAccessPolicy'' 4]
       = Inr \<lparr>historyEventCount = 1, lastSerial = 4, board = demoBoard 4, loopIndex = 1,
              rebuildingSnapshot = False\<rparr>"
proof -
  have h1: "action (entry ''board.setAccessPolicy'' 4) = ''board.setAccessPolicy''"
    and h2: "serial (entry ''board.setAccessPolicy'' 4) = Some 4"
    by (simp_all add: entry_def)
  show ?thesis
    using h1 h2
      setAccessPolicy_only_advances_serial [OF h1 h2, where R = serialReducer
        and rebuilding = False and b = "demoBoard 3" and snapshot = "demoBoard 3"
        and st = "startState (demoBoard 3)"]
    by (simp add: demoBoard_def startState_def)
qed

subsection \<open>The snapshot written after a load\<close>

lemma streamedEvents_Nil: "streamedEvents m [] = []"
  by (simp add: streamedEvents_def)

lemma streamedEvents_Some:
  "streamedEvents m (Some chunk # rows) = map m chunk @ streamedEvents m rows"
  by (simp add: streamedEvents_def)

lemma reduceChunk_append:
  "reduceChunk step b n (xs @ ys) =
     (case reduceChunk step b n xs of
        Inl failed \<Rightarrow> Inl failed
      | Inr (b', n') \<Rightarrow> reduceChunk step b' n' ys)"
  by (induction xs arbitrary: b n) (auto split: sum.splits)

lemma update_reduce:
  "updateBoardWithEventChunk R snap st chunk = Inr st' \<Longrightarrow>
     reduceChunk (chunkStep R (rebuildingSnapshot st)) (board st) (loopIndex st) chunk =
       Inr (board st', loopIndex st')"
  by (auto simp: updateBoardWithEventChunk_def Let_def split: sum.splits prod.splits list.splits)

lemma stream_update_fold:
  "streamingBoardEventsQuery m rows (updateBoardWithEventChunk R snap) st = Inr st' \<Longrightarrow>
     reduceChunk (chunkStep R (rebuildingSnapshot st)) (board st) (loopIndex st)
       (streamedEvents m rows) = Inr (board st', loopIndex st')
     \<and> rebuildingSnapshot st' = rebuildingSnapshot st"
proof (induction rows arbitrary: st)
  case Nil
  then show ?case by (simp add: streamedEvents_Nil)
next
  case (Cons row rows)
  from Cons.prems obtain chunk st1 where
    row: "row = Some chunk" and
    first: "updateBoardWithEventChunk R snap st (map m chunk) = Inr st1" and
    rest: "streamingBoardEventsQuery m rows (updateBoardWithEventChunk R snap) st1 = Inr st'"
    by (auto split: option.splits sum.splits)
  have flag: "rebuildingSnapshot st1 = rebuildingSnapshot st"
    using update_keeps_flag [OF first] .
  from Cons.IH [OF rest] update_reduce [OF first] flag row
  show ?case by (simp add: streamedEvents_Some reduceChunk_append)
qed

lemma historyChunk_Inr:
  assumes "historyChunk a cb (c, s) chunk = Inr (c', s')"
  shows "chunk \<noteq> [] \<and>
     (if filter (validAfter a) chunk = [] then s' = s
      else cb s (filter (validAfter a) chunk) = Inr s')"
  using assms
  by (auto simp: historyChunk_def Let_def split: list.splits if_splits sum.splits prod.splits)

lemma stream_history_count:
  "streamingBoardEventsQuery m rows (historyChunk a (updateBoardWithEventChunk R snap)) (c0, st)
     = Inr (c, st') \<Longrightarrow>
   historyEventCount st' =
     historyEventCount st + length (filter (validAfter a) (streamedEvents m rows))
   \<and> rebuildingSnapshot st' = rebuildingSnapshot st"
proof (induction rows arbitrary: c0 st)
  case Nil
  then show ?case by (simp add: streamedEvents_Nil)
next
  case (Cons row rows)
  from Cons.prems obtain chunk c1 st1 where
    row: "row = Some chunk" and
    first: "historyChunk a (updateBoardWithEventChunk R snap) (c0, st) (map m chunk) = Inr (c1, st1)" and
    rest: "streamingBoardEventsQuery m rows (historyChunk a (updateBoardWithEventChunk R snap))
             (c1, st1) = Inr (c, st')"
    by (auto split: option.splits sum.splits)
  have step: "historyEventCount st1 =
        historyEventCount st + length (filter (validAfter a) (map m chunk))
      \<and> rebuildingSnapshot st1 = rebuildingSnapshot st"
  proof (cases "filter (validAfter a) (map m chunk) = []")
    case True
    with historyChunk_Inr [OF first] show ?thesis by simp
  next
    case False
    with historyChunk_Inr [OF first]
    have "updateBoardWithEventChunk R snap st (filter (validAfter a) (map m chunk)) = Inr st1"
      by simp
    from update_count [OF this] update_keeps_flag [OF this] show ?thesis by simp
  qed
  from Cons.IH [OF rest] step row show ?case by (simp add: streamedEvents_Some)
qed

lemma getBoardHistory_count:
  assumes "getBoardHistory m db bid a (updateBoardWithEventChunk R snap) st = Inr st'"
  shows "historyEventCount st' =
     historyEventCount st +
       length (filter (validAfter a) (streamedEvents m (selectEventsFrom db bid a)))
   \<and> rebuildingSnapshot st' = rebuildingSnapshot st"
proof -
  from assms obtain c where
    "streamingBoardEventsQuery m (selectEventsFrom db bid a)
       (historyChunk a (updateBoardWithEventChunk R snap)) (initCursor, st) = Inr (c, st')"
    by (auto simp: getBoardHistory_def split: sum.splits prod.splits if_splits)
  then show ?thesis by (rule stream_history_count)
qed

lemma finishFetch_db:
  "finishFetch mb db bid snapshot st = (db', r) \<Longrightarrow>
     db' = (if historyEventCount st > 1000 \<or> rebuildingSnapshot st
            then saveBoardSnapshot (mb (loaded r)) db else db)
     \<and> loaded r = (board st)\<lparr>serial_b := loadedSerial snapshot st\<rparr>"
  by (auto simp: finishFetch_def Let_def mkSnapshot_def)

lemma snapshot_saved_aux:
  assumes "selectBoard db bid = Some snapshot"
    and "fetchBoard R m mb db bid = Inr (db', Some r)"
  shows "db' =
     (if isl (getBoardHistory m db bid (serial_b snapshot)
                (updateBoardWithEventChunk R snapshot) (startState snapshot))
         \<or> length (filter (validAfter (serial_b snapshot))
                     (streamedEvents m (selectEventsFrom db bid (serial_b snapshot)))) > 1000
      then saveBoardSnapshot (mb (loaded r)) db else db)"
proof (cases "getBoardHistory m db bid (serial_b snapshot)
                (updateBoardWithEventChunk R snapshot) (startState snapshot)")
  case (Inr st)
  from getBoardHistory_count [OF Inr]
  have count: "historyEventCount st =
      length (filter (validAfter (serial_b snapshot))
        (streamedEvents m (selectEventsFrom db bid (serial_b snapshot))))"
    and flag: "\<not> rebuildingSnapshot st"
    by (simp_all add: startState_def)
  from assms Inr have "finishFetch mb db bid snapshot st = (db', r)"
    by (auto simp: fetchBoard_def Let_def split: prod.splits)
  from finishFetch_db [OF this] count flag Inr show ?thesis by simp
next
  case (Inl failed)
  obtain err st where failed: "failed = (err, st)" by (cases failed)
  from assms Inl failed obtain st' where
    full: "getFullBoardHistory m db bid (updateBoardWithEventChunk R snapshot)
             (rebootState snapshot st) = Inr st'" and
    fin: "finishFetch mb db bid snapshot st' = (db', r)"
    by (auto simp: fetchBoard_def Let_def split: prod.splits sum.splits)
  from full have "rebuildingSnapshot st'"
    using stream_update_fold [of m "selectAllEvents db bid" R snapshot "rebootState snapshot st" st']
    by (simp add: getFullBoardHistory_def rebootState_def)
  with finishFetch_db [OF fin] Inl show ?thesis by simp
qed

text \<open>
  C8: when \<open>fetchBoard\<close> returns a board, a snapshot is due exactly if the replay from
  the snapshot failed (a rebuild took place) or more than 1000 streamed events were newer
  than the snapshot. When it is due, the database \<open>fetchBoard\<close> leaves is the one it
  found with the row of \<open>board\<close> whose id is the snapshot's rewritten: its \<open>name\<close> and
  \<open>content\<close> columns hold the name and the whole of \<open>migrateBoard\<close> of the very board
  that is returned, so the snapshot carries the serial the board is returned with (an
  \<open>UPDATE\<close> of a row that does not exist changes nothing). In particular, when the
  snapshot's id is the id asked for, that row is there after the call. When no snapshot
  is due, the database is left as it was found.
\<close>

theorem snapshot_saved_iff:
  assumes "selectBoard db bid = Some snapshot"
    and "fetchBoard R m mb db bid = Inr (db', Some r)"
  shows "(let due = (isl (getBoardHistory m db bid (serial_b snapshot)
                       (updateBoardWithEventChunk R snapshot) (startState snapshot))
                \<or> length (filter (validAfter (serial_b snapshot))
                     (streamedEvents m (selectEventsFrom db bid (serial_b snapshot)))) > 1000);
              snap = mb (loaded r)
          in db' =
               (if due then
                  (case board_table db (id_b snap) of
                     None \<Rightarrow> db
                   | Some old \<Rightarrow>
                       db\<lparr>board_table := (board_table db)
                            (id_b snap \<mapsto> \<lparr>name_col = name snap, content = snap\<rparr>)\<rparr>)
                else db)
             \<and> (due \<and> id_b snap = bid \<longrightarrow>
                  board_table db' bid = Some \<lparr>name_col = name snap, content = snap\<rparr>
                  \<and> board_event db' = board_event db
                  \<and> board_api_token db' = board_api_token db
                  \<and> policy_columns db' = policy_columns db)
             \<and> (\<not> due \<longrightarrow> db' = db))"
proof -
  from assms(1) obtain old where row: "board_table db bid = Some old"
    by (auto simp: selectBoard_def split: option.splits)
  show ?thesis
    using snapshot_saved_aux [OF assms] row
    by (auto simp: Let_def saveBoardSnapshot_def split: option.splits)
qed

subsection \<open>The rebuild\<close>





lemma demo_gap_full:
  "getFullBoardHistory id (demoDB 5 [[6, 7], [9, 10]]) ''b''
     (updateBoardWithEventChunk serialReducer (demoBoard 5))
     (rebootState (demoBoard 5)
        \<lparr>historyEventCount = 2, lastSerial = 7, board = demoBoard 7, loopIndex = 3,
          rebuildingSnapshot = False\<rparr>)
   = Inr \<lparr>historyEventCount = 6, lastSerial = 10, board = demoBoard 10, loopIndex = 4,
          rebuildingSnapshot = True\<rparr>"
  by (simp add: demo_defs load_defs)


lemma demo_fetch:
  "fetchBoard serialReducer id id (demoDB 0 [[1, 2], [3]]) ''b'' =
     Inr (demoDB 0 [[1, 2], [3]], Some \<lparr>loaded = demoBoard 3, accessTokens = [''token'']\<rparr>)"
  by (simp add: fetchBoard_def demo_select demo_serial demo_replay finishFetch_def Let_def
      loadedSerial_def orZero_def)
    (simp add: demoDB_def demoBoard_def)

lemma demo_gap_fetch:
  "fetchBoard serialReducer id id (demoDB 5 [[6, 7], [9, 10]]) ''b'' =
     Inr ((demoDB 5 [[6, 7], [9, 10]])
            \<lparr>board_table := [''b'' \<mapsto> \<lparr>name_col = ''demo'', content = demoBoard 10\<rparr>]\<rparr>,
          Some \<lparr>loaded = demoBoard 10, accessTokens = [''token'']\<rparr>)"
  by (simp add: fetchBoard_def demo_select demo_serial demo_gap demo_gap_full finishFetch_def
      Let_def loadedSerial_def orZero_def mkSnapshot_def saveBoardSnapshot_def)
    (simp add: demoDB_def demoBoard_def)

text \<open>
  Three new events after the snapshot: nothing is written. A rebuild: the snapshot row
  is rewritten with the board that is returned.
\<close>

theorem snapshot_saved_iff_witness:
  "selectBoard (demoDB 0 [[1, 2], [3]]) ''b'' = Some (demoBoard 0)
   \<and> fetchBoard serialReducer id id (demoDB 0 [[1, 2], [3]]) ''b'' =
       Inr (demoDB 0 [[1, 2], [3]], Some \<lparr>loaded = demoBoard 3, accessTokens = [''token'']\<rparr>)
   \<and> \<not> isl (getBoardHistory id (demoDB 0 [[1, 2], [3]]) ''b'' (serial_b (demoBoard 0))
              (updateBoardWithEventChunk serialReducer (demoBoard 0)) (startState (demoBoard 0)))
   \<and> length (filter (validAfter (serial_b (demoBoard 0)))
        (streamedEvents id (selectEventsFrom (demoDB 0 [[1, 2], [3]]) ''b'' (serial_b (demoBoard 0))))) = 3
   \<and> selectBoard (demoDB 5 [[6, 7], [9, 10]]) ''b'' = Some (demoBoard 5)
   \<and> isl (getBoardHistory id (demoDB 5 [[6, 7], [9, 10]]) ''b'' (serial_b (demoBoard 5))
              (updateBoardWithEventChunk serialReducer (demoBoard 5)) (startState (demoBoard 5)))
   \<and> id_b (id (demoBoard 10)) = ''b''
   \<and> fetchBoard serialReducer id id (demoDB 5 [[6, 7], [9, 10]]) ''b'' =
       Inr ((demoDB 5 [[6, 7], [9, 10]])
              \<lparr>board_table := [''b'' \<mapsto> \<lparr>name_col = ''demo'', content = demoBoard 10\<rparr>]\<rparr>,
            Some \<lparr>loaded = demoBoard 10, accessTokens = [''token'']\<rparr>)
   \<and> board_table (fst (projr (fetchBoard serialReducer id id (demoDB 5 [[6, 7], [9, 10]]) ''b''))) ''b''
       = Some \<lparr>name_col = ''demo'', content = demoBoard 10\<rparr>
   \<and> board_table (demoDB 5 [[6, 7], [9, 10]]) ''b''
       = Some \<lparr>name_col = ''demo'', content = demoBoard 5\<rparr>"
proof -
  have n: "length (filter (validAfter 0)
        (streamedEvents id (selectEventsFrom (demoDB 0 [[1, 2], [3]]) ''b'' 0))) = 3"
    by (simp add: demo_defs streamedEvents_def selectEventsFrom_def validAfter_def)
  have i: "id_b (demoBoard 10) = ''b''" and nm: "name (demoBoard 10) = ''demo''"
    by (simp_all add: demoBoard_def)
  have t: "board_table (demoDB 5 [[6, 7], [9, 10]]) ''b''
       = Some \<lparr>name_col = ''demo'', content = demoBoard 5\<rparr>"
    by (simp add: demoDB_def)
  show ?thesis
    using snapshot_saved_iff [OF demo_select demo_fetch]
      snapshot_saved_iff [OF demo_select demo_gap_fetch]
    by (simp add: demo_select demo_fetch demo_gap_fetch demo_serial demo_replay demo_gap n i nm t
        Let_def)
qed

section \<open>Streaming the history: theorems\<close>

lemma historyChunk_cursor:
  assumes "historyChunk a cb (c0, s) chunk = Inr (c1, s1)"
  shows "chunk \<noteq> []
     \<and> lastSerial_h c1 = (case serial (last chunk) of None \<Rightarrow> -1 | Some x \<Rightarrow> x)
     \<and> firstValidSerial c1 =
         (if firstValidSerial c0 = -1 \<and> filter (validAfter a) chunk \<noteq> []
          then the (serial (hd (filter (validAfter a) chunk))) else firstValidSerial c0)"
proof -
  have v: "serial (hd (filter (validAfter a) chunk)) \<noteq> None"
    if "filter (validAfter a) chunk \<noteq> []"
  proof -
    from that have "hd (filter (validAfter a) chunk) \<in> set (filter (validAfter a) chunk)"
      by (rule hd_in_set)
    then have "validAfter a (hd (filter (validAfter a) chunk))" by simp
    then show ?thesis by (auto simp: validAfter_def split: option.splits)
  qed
  show ?thesis
    using assms v
    by (auto simp: historyChunk_def Let_def split: list.splits if_splits sum.splits prod.splits)
qed

lemma hd_valid_serial:
  assumes "filter (validAfter a) evs \<noteq> []"
  shows "\<exists>x. serial (hd (filter (validAfter a) evs)) = Some x \<and> a < x"
proof -
  from assms have "hd (filter (validAfter a) evs) \<in> set (filter (validAfter a) evs)"
    by (rule hd_in_set)
  then have "validAfter a (hd (filter (validAfter a) evs))" by simp
  then show ?thesis by (auto simp: validAfter_def split: option.splits)
qed

lemma firstValidOf_append:
  "firstValidOf a (xs @ ys) =
     (if filter (validAfter a) xs = [] then firstValidOf a ys
      else the (serial (hd (filter (validAfter a) xs))))"
  by (simp add: firstValidOf_def)

lemma firstValidOf_neq:
  "0 \<le> a \<Longrightarrow> filter (validAfter a) evs \<noteq> [] \<Longrightarrow> firstValidOf a evs \<noteq> -1"
  using hd_valid_serial [of a evs] by (auto simp: firstValidOf_def)

lemma stream_cursor:
  assumes "streamingBoardEventsQuery m rows (historyChunk a cb) (c0, s) = Inr (c, s')"
    and "0 \<le> a"
  shows "wellFormedRows rows
     \<and> (rows \<noteq> [] \<longrightarrow> streamedEvents m rows \<noteq> [])
     \<and> lastSerial_h c = (if rows = [] then lastSerial_h c0 else lastSerialOf (streamedEvents m rows))
     \<and> firstValidSerial c =
         (if firstValidSerial c0 \<noteq> -1 then firstValidSerial c0
          else firstValidOf a (streamedEvents m rows))"
  using assms(1)
proof (induction rows arbitrary: c0 s)
  case Nil
  then show ?case
    by (simp add: wellFormedRows_def streamedEvents_Nil firstValidOf_def)
next
  case (Cons row rows)
  from Cons.prems obtain chunk c1 s1 where
    row: "row = Some chunk" and
    first: "historyChunk a cb (c0, s) (map m chunk) = Inr (c1, s1)" and
    rest: "streamingBoardEventsQuery m rows (historyChunk a cb) (c1, s1) = Inr (c, s')"
    by (auto split: option.splits sum.splits)
  note ih = Cons.IH [OF rest]
  note cur = historyChunk_cursor [OF first]
  from cur have ne: "chunk \<noteq> []" by simp
  have wf: "wellFormedRows (row # rows)"
    using ih ne row by (simp add: wellFormedRows_def)
  have evs: "streamedEvents m (row # rows) = map m chunk @ streamedEvents m rows"
    by (simp add: row streamedEvents_Some)
  have nonempty: "streamedEvents m (row # rows) \<noteq> []"
    using ne evs by simp
  have lst: "lastSerial_h c = lastSerialOf (streamedEvents m (row # rows))"
  proof (cases "rows = []")
    case True
    with ih cur show ?thesis
      by (simp add: row streamedEvents_Some streamedEvents_Nil lastSerialOf_def)
  next
    case False
    with ih have "streamedEvents m rows \<noteq> []" by simp
    with False ih show ?thesis by (simp add: evs lastSerialOf_def)
  qed
  have fvs: "firstValidSerial c =
         (if firstValidSerial c0 \<noteq> -1 then firstValidSerial c0
          else firstValidOf a (streamedEvents m (row # rows)))"
  proof (cases "firstValidSerial c0 = -1 \<and> filter (validAfter a) (map m chunk) \<noteq> []")
    case True
    then have "firstValidSerial c1 = firstValidOf a (map m chunk)"
      using cur by (simp add: firstValidOf_def)
    moreover have "firstValidOf a (map m chunk) \<noteq> -1"
      using True assms(2) by (simp add: firstValidOf_neq)
    ultimately show ?thesis
      using ih True by (simp add: evs firstValidOf_append firstValidOf_def)
  next
    case False
    then have "firstValidSerial c1 = firstValidSerial c0" using cur by auto
    with ih False show ?thesis by (auto simp: evs firstValidOf_append)
  qed
  from wf nonempty lst fvs show ?case by simp
qed

lemma stream_total:
  assumes "wellFormedRows rows" and "\<And>s chunk. \<not> isl (cb s chunk)"
  shows "\<not> isl (streamingBoardEventsQuery m rows (historyChunk a cb) cs)"
  using assms(1)
proof (induction rows arbitrary: cs)
  case Nil
  show ?case by simp
next
  case (Cons row rows)
  from Cons.prems obtain chunk where row: "row = Some chunk" and ne: "chunk \<noteq> []"
    and wf: "wellFormedRows rows"
    by (auto simp: wellFormedRows_def split: option.splits)
  obtain c0 s where cs: "cs = (c0, s)" by (cases cs)
  have "\<not> isl (historyChunk a cb (c0, s) (map m chunk))"
    using ne assms(2) [of s "filter (validAfter a) (map m chunk)"]
    by (auto simp: historyChunk_def Let_def split: list.splits sum.splits prod.splits)
  then obtain cs1 where "historyChunk a cb (c0, s) (map m chunk) = Inr cs1"
    by (cases "historyChunk a cb (c0, s) (map m chunk)") auto
  with Cons.IH [OF wf, of cs1] row cs show ?case by simp
qed

lemma accepted_iff:
  assumes "0 \<le> a"
    and "lastSerial_h c = (if rows = [] then - 1 else lastSerialOf evs)"
    and "firstValidSerial c = firstValidOf a evs"
    and "rows \<noteq> [] \<longrightarrow> evs \<noteq> []" and "rows = [] \<longrightarrow> evs = []"
  shows "(lastSerial_h c = a \<or> firstValidSerial c = a + 1 \<or> (firstValidSerial c = -1 \<and> a = 0))
     \<longleftrightarrow> historyContinuesFrom a evs"
proof -
  have l: "lastSerial_h c = a \<longleftrightarrow> evs \<noteq> [] \<and> serial (last evs) = Some a"
    using assms by (auto simp: lastSerialOf_def split: option.splits)
  have f: "firstValidSerial c = a + 1 \<longleftrightarrow>
      filter (validAfter a) evs \<noteq> [] \<and> serial (hd (filter (validAfter a) evs)) = Some (a + 1)"
    using assms(1,3) hd_valid_serial [of a evs] by (auto simp: firstValidOf_def)
  have n: "firstValidSerial c = -1 \<longleftrightarrow> filter (validAfter a) evs = []"
    using assms(1,3) firstValidOf_neq [of a evs] by (auto simp: firstValidOf_def)
  show ?thesis
    unfolding historyContinuesFrom_def Let_def l f n by blast
qed

lemma getBoardHistory_Inr:
  assumes "getBoardHistory m db bid a cb s = Inr s'" and "0 \<le> a"
  shows "wellFormedRows (selectEventsFrom db bid a)
     \<and> historyContinuesFrom a (streamedEvents m (selectEventsFrom db bid a))"
proof -
  let ?rows = "selectEventsFrom db bid a"
  from assms(1) obtain c where
    run: "streamingBoardEventsQuery m ?rows (historyChunk a cb) (initCursor, s) = Inr (c, s')"
    and ok: "lastSerial_h c = a \<or> firstValidSerial c = a + 1 \<or> (firstValidSerial c = -1 \<and> a = 0)"
    by (auto simp: getBoardHistory_def split: sum.splits prod.splits if_splits)
  note cur = stream_cursor [OF run assms(2)]
  have "(lastSerial_h c = a \<or> firstValidSerial c = a + 1 \<or> (firstValidSerial c = -1 \<and> a = 0))
     \<longleftrightarrow> historyContinuesFrom a (streamedEvents m ?rows)"
  proof (rule accepted_iff [OF assms(2), where rows = ?rows])
    show "lastSerial_h c = (if ?rows = [] then - 1 else lastSerialOf (streamedEvents m ?rows))"
      using cur by (simp add: initCursor_def)
    show "firstValidSerial c = firstValidOf a (streamedEvents m ?rows)"
      using cur by (simp add: initCursor_def)
    show "?rows \<noteq> [] \<longrightarrow> streamedEvents m ?rows \<noteq> []" using cur by simp
    show "?rows = [] \<longrightarrow> streamedEvents m ?rows = []" by (simp add: streamedEvents_Nil)
  qed
  with ok cur show ?thesis by simp
qed

lemma getBoardHistory_total:
  assumes "0 \<le> a" and "wellFormedRows (selectEventsFrom db bid a)"
    and "\<And>s chunk. \<not> isl (cb s chunk)"
    and "historyContinuesFrom a (streamedEvents m (selectEventsFrom db bid a))"
  shows "\<not> isl (getBoardHistory m db bid a cb s)"
proof -
  let ?rows = "selectEventsFrom db bid a"
  have "\<not> isl (streamingBoardEventsQuery m ?rows (historyChunk a cb) (initCursor, s))"
    by (rule stream_total [OF assms(2)]) (rule assms(3))
  then obtain c s' where
    run: "streamingBoardEventsQuery m ?rows (historyChunk a cb) (initCursor, s) = Inr (c, s')"
    by (cases "streamingBoardEventsQuery m ?rows (historyChunk a cb) (initCursor, s)") auto
  note cur = stream_cursor [OF run assms(1)]
  have "(lastSerial_h c = a \<or> firstValidSerial c = a + 1 \<or> (firstValidSerial c = -1 \<and> a = 0))
     \<longleftrightarrow> historyContinuesFrom a (streamedEvents m ?rows)"
  proof (rule accepted_iff [OF assms(1), where rows = ?rows])
    show "lastSerial_h c = (if ?rows = [] then - 1 else lastSerialOf (streamedEvents m ?rows))"
      using cur by (simp add: initCursor_def)
    show "firstValidSerial c = firstValidOf a (streamedEvents m ?rows)"
      using cur by (simp add: initCursor_def)
    show "?rows \<noteq> [] \<longrightarrow> streamedEvents m ?rows \<noteq> []" using cur by simp
    show "?rows = [] \<longrightarrow> streamedEvents m ?rows = []" by (simp add: streamedEvents_Nil)
  qed
  with assms(4) have "lastSerial_h c = a \<or> firstValidSerial c = a + 1 \<or> (firstValidSerial c = -1 \<and> a = 0)"
    by simp
  with run show ?thesis by (auto simp: getBoardHistory_def)
qed

text \<open>
  C5 as the code has it, for a non-negative \<open>afterSerial\<close>. If \<open>getBoardHistory\<close>
  completes, every streamed row held a non-empty events array and one of the three
  conditions holds of the streamed events: none is newer than \<open>afterSerial\<close> and
  \<open>afterSerial\<close> is 0; or the last streamed serial is \<open>afterSerial\<close>; or the first
  newer event has serial \<open>afterSerial + 1\<close>. Conversely, when every streamed row holds
  a non-empty events array and the callback never throws, it completes exactly when one
  of the three holds. (A throwing callback, or a row with no or an empty events array,
  makes it fail whatever the serials.)
\<close>

theorem getBoardHistory_completes:
  assumes "0 \<le> afterSerial"
  shows "(\<not> isl (getBoardHistory m db bid afterSerial cb s) \<longrightarrow>
            wellFormedRows (selectEventsFrom db bid afterSerial) \<and>
            historyContinuesFrom afterSerial
              (streamedEvents m (selectEventsFrom db bid afterSerial)))
     \<and> (wellFormedRows (selectEventsFrom db bid afterSerial) \<and> (\<forall>s chunk. \<not> isl (cb s chunk)) \<longrightarrow>
          (\<not> isl (getBoardHistory m db bid afterSerial cb s) \<longleftrightarrow>
            historyContinuesFrom afterSerial
              (streamedEvents m (selectEventsFrom db bid afterSerial))))"
proof -
  have a: "wellFormedRows (selectEventsFrom db bid afterSerial) \<and>
            historyContinuesFrom afterSerial
              (streamedEvents m (selectEventsFrom db bid afterSerial))"
    if "\<not> isl (getBoardHistory m db bid afterSerial cb s)"
  proof -
    from that obtain s' where "getBoardHistory m db bid afterSerial cb s = Inr s'"
      by (cases "getBoardHistory m db bid afterSerial cb s") auto
    from getBoardHistory_Inr [OF this assms] show ?thesis .
  qed
  have b: "\<not> isl (getBoardHistory m db bid afterSerial cb s)"
    if "wellFormedRows (selectEventsFrom db bid afterSerial)" and "\<forall>s chunk. \<not> isl (cb s chunk)"
      and "historyContinuesFrom afterSerial (streamedEvents m (selectEventsFrom db bid afterSerial))"
  proof (rule getBoardHistory_total [OF assms that(1) _ that(3)])
    fix s chunk
    show "\<not> isl (cb s chunk)" using that(2) by blast
  qed
  from a b show ?thesis by blast
qed

lemma counting_total: "\<not> isl (countingCallback s chunk)"
  by (simp add: countingCallback_def)

text \<open>
  With a callback that only counts: bundles 1, 2 and 3 after serial 0 are accepted;
  a history that starts at serial 2 after serial 0 is refused.
\<close>

theorem getBoardHistory_completes_witness:
  "(0::int) \<le> 0
   \<and> wellFormedRows (selectEventsFrom (demoDB 0 [[1, 2], [3]]) ''b'' 0)
   \<and> (\<forall>s chunk. \<not> isl (countingCallback s chunk))
   \<and> historyContinuesFrom 0 (streamedEvents id (selectEventsFrom (demoDB 0 [[1, 2], [3]]) ''b'' 0))
   \<and> \<not> isl (getBoardHistory id (demoDB 0 [[1, 2], [3]]) ''b'' 0 countingCallback 0)
   \<and> wellFormedRows (selectEventsFrom (demoDB 0 [[2, 3]]) ''b'' 0)
   \<and> \<not> historyContinuesFrom 0 (streamedEvents id (selectEventsFrom (demoDB 0 [[2, 3]]) ''b'' 0))
   \<and> isl (getBoardHistory id (demoDB 0 [[2, 3]]) ''b'' 0 countingCallback 0)"
proof -
  have z: "(0::int) \<le> 0" by simp
  have w1: "wellFormedRows (selectEventsFrom (demoDB 0 [[1, 2], [3]]) ''b'' 0)"
    and w2: "wellFormedRows (selectEventsFrom (demoDB 0 [[2, 3]]) ''b'' 0)"
    by (simp_all add: wellFormedRows_def selectEventsFrom_def demo_defs)
  have c1: "historyContinuesFrom 0
      (streamedEvents id (selectEventsFrom (demoDB 0 [[1, 2], [3]]) ''b'' 0))"
    by (simp add: historyContinuesFrom_def streamedEvents_def selectEventsFrom_def validAfter_def
        demo_defs)
  have c2: "\<not> historyContinuesFrom 0
      (streamedEvents id (selectEventsFrom (demoDB 0 [[2, 3]]) ''b'' 0))"
    by (simp add: historyContinuesFrom_def streamedEvents_def selectEventsFrom_def validAfter_def
        demo_defs)
  show ?thesis
    using z w1 w2 c1 c2 counting_total
      getBoardHistory_completes [OF z, where m = id and db = "demoDB 0 [[1, 2], [3]]"
        and bid = "''b''" and cb = countingCallback and s = 0]
      getBoardHistory_completes [OF z, where m = id and db = "demoDB 0 [[2, 3]]"
        and bid = "''b''" and cb = countingCallback and s = 0]
    by blast
qed

text \<open>
  C5 fails on the code as stated: after serial 5 the first newer event has serial 6, so
  the third condition holds, and yet \<open>getBoardHistory\<close> fails, because the loader's
  callback throws at the step from 7 to 9.
\<close>

theorem getBoardHistory_fails_on_callback:
  "historyContinuesFrom 5
     (streamedEvents id (selectEventsFrom (demoDB 5 [[6, 7], [9, 10]]) ''b'' 5))
   \<and> wellFormedRows (selectEventsFrom (demoDB 5 [[6, 7], [9, 10]]) ''b'' 5)
   \<and> getBoardHistory id (demoDB 5 [[6, 7], [9, 10]]) ''b'' 5
       (updateBoardWithEventChunk serialReducer (demoBoard 5)) (startState (demoBoard 5))
     = Inl (ReducerError ''Serial skip'',
         \<lparr>historyEventCount = 2, lastSerial = 7, board = demoBoard 7, loopIndex = 3,
           rebuildingSnapshot = False\<rparr>)"
  by (simp add: demo_gap)
    (simp add: historyContinuesFrom_def streamedEvents_def selectEventsFrom_def validAfter_def
      wellFormedRows_def demo_defs)

end
